theory Spec2Isabelle
  imports Main
begin

section \<open>GStreamer compositor control plane (app.py)\<close>

text \<open>
  A shallow embedding of \<^verbatim>\<open>app.py\<close>: the pipeline string builder
  \<^verbatim>\<open>build_pipeline\<close>, the process manager \<^verbatim>\<open>start_gst\<close> /
  \<^verbatim>\<open>stop_gst\<close> around the global \<^verbatim>\<open>GST_PROCESS\<close>, and the three
  HTTP handlers \<^verbatim>\<open>/start\<close>, \<^verbatim>\<open>/stop\<close> and \<^verbatim>\<open>/update\<close>.
\<close>

subsection \<open>Data\<close>

text \<open>
  A feed is a dict with the keys \<^verbatim>\<open>'name'\<close> and \<^verbatim>\<open>'url'\<close> (docstring of
  \<^verbatim>\<open>build_pipeline\<close>); both values are strings.
\<close>

record feed =
  name :: string
  url :: string

text \<open>
  The composite list reaches \<^verbatim>\<open>build_pipeline\<close> from the YAML configuration
  (\<^verbatim>\<open>/start\<close>) or straight from the JSON body of the request (\<^verbatim>\<open>/update\<close>),
  so its entries are arbitrary JSON values. Numbers are kept as integers: only their
  truth value and the fact that they are hashable and differ from every string matter here.
\<close>

datatype json =
    JNull
  | JBool bool
  | JNumber int
  | JString string
  | JArray "json list"
  | JObject "(string \<times> json) list"

text \<open>
  Exceptions that \<^verbatim>\<open>build_pipeline\<close> can raise: the explicit \<^verbatim>\<open>ValueError\<close> of
  line 56, and the \<^verbatim>\<open>TypeError\<close> of Python's \<^verbatim>\<open>name in feed_map\<close> on an
  unhashable name (a list or a dict).
\<close>

datatype error = ValueError string | TypeError string

text \<open>\<^verbatim>\<open>str(e)\<close>, as the f-string of line 91 formats the exception.\<close>

fun message :: "error \<Rightarrow> string" where
  "message (ValueError m) = m"
| "message (TypeError m) = m"

subsection \<open>Formatting helpers\<close>

text \<open>
  \<^verbatim>\<open>str(n)\<close> as used by the f-strings, for the non-negative integers that
  \<^verbatim>\<open>enumerate\<close> and \<^verbatim>\<open>range\<close> produce.
\<close>

definition digit :: "nat \<Rightarrow> char" where
  "digit d = ''0123456789'' ! d"

function str :: "nat \<Rightarrow> string" where
  "str n = (if n < 10 then [digit n] else str (n div 10) @ [digit (n mod 10)])"
  by pat_completeness auto
termination
  by (relation "measure id") auto

declare str.simps [simp del]

text \<open>\<^verbatim>\<open>sep.join(parts)\<close>.\<close>

fun join :: "string \<Rightarrow> string list \<Rightarrow> string" where
  "join sep [] = []"
| "join sep [p] = p"
| "join sep (p # q # ps) = p @ sep @ join sep (q # ps)"

subsection \<open>build\_pipeline\<close>

text \<open>
  Line 53: \<^verbatim>\<open>feed_map = {f['name']: f['url'] for f in feeds}\<close>. The comprehension
  inserts the feeds in order, so a later feed with the same name overwrites an earlier one.
\<close>

definition feed_map :: "feed list \<Rightarrow> (string \<rightharpoonup> string)" where
  "feed_map feeds = foldl (\<lambda>m f. m(name f \<mapsto> url f)) Map.empty feeds"

text \<open>
  Line 54: \<^verbatim>\<open>[feed_map[name] for name in composite if name in feed_map]\<close>. The test
  \<^verbatim>\<open>name in feed_map\<close> hashes the name: a list or a dict raises \<^verbatim>\<open>TypeError\<close>;
  \<^verbatim>\<open>None\<close>, booleans and numbers are hashable and equal to no string key.
\<close>

definition unhashable :: "string \<Rightarrow> error" where
  "unhashable t = TypeError (''unhashable type: '' @ [CHR 0x27] @ t @ [CHR 0x27])"

fun selected_urls :: "(string \<rightharpoonup> string) \<Rightarrow> json list \<Rightarrow> error + string list" where
  "selected_urls fm [] = Inr []"
| "selected_urls fm (JArray xs # ns) = Inl (unhashable ''list'')"
| "selected_urls fm (JObject kvs # ns) = Inl (unhashable ''dict'')"
| "selected_urls fm (JString s # ns) =
     (case fm s of
        None \<Rightarrow> selected_urls fm ns
      | Some u \<Rightarrow>
          (case selected_urls fm ns of Inl e \<Rightarrow> Inl e | Inr us \<Rightarrow> Inr (u # us)))"
| "selected_urls fm (n # ns) = selected_urls fm ns"

text \<open>Line 62: the decode chain of one source, ending in the queue named after its index.\<close>

definition source_chain :: "nat \<Rightarrow> string \<Rightarrow> string" where
  "source_chain idx u =
     ''rtspsrc location='' @ u @
     '' latency=100 ! rtph264depay ! h264parse ! avdec_h264 ! videoconvert ! videoscale ! video/x-raw,width=640,height=360 ! queue name=q''
     @ str idx"

text \<open>
  Lines 59 to 64: the loop over \<^verbatim>\<open>enumerate(selected_urls)\<close> that appends one chain
  per url. (\<^verbatim>\<open>compositor_inputs\<close> is filled by the same loop and never read.)
\<close>

definition pipeline_parts :: "string list \<Rightarrow> string list" where
  "pipeline_parts urls = map (\<lambda>(idx, u). source_chain idx u) (enumerate 0 urls)"

text \<open>Lines 70 to 72: the text added for sink \<open>i\<close> by the loop over \<^verbatim>\<open>range(1, len(selected_urls))\<close>.\<close>

definition sink_props :: "nat \<Rightarrow> string" where
  "sink_props i =
     ''sink_'' @ str i @ ''::xpos='' @ str ((i mod 3) * 640) @
     '' sink_'' @ str i @ ''::ypos='' @ str ((i div 3) * 360) @ '' ''"

definition encode_chain :: string where
  "encode_chain =
     ''! videoconvert ! x264enc tune=zerolatency bitrate=2048 speed-preset=ultrafast ! rtph264pay ! queue ! webrtcbin bundle-policy=max-bundle name=sendrecv ''"

text \<open>Lines 68 to 73, for \<open>n\<close> selected urls.\<close>

definition compositor :: "nat \<Rightarrow> string" where
  "compositor n =
     ''compositor name=mix sink_0::xpos=0 sink_0::ypos=0 '' @
     concat (map sink_props [1..<n]) @ encode_chain"

text \<open>Lines 76 and 77: \<^verbatim>\<open>webrtc.get('stun_server', 'stun:stun.l.google.com:19302')\<close>.\<close>

definition webrtc_signaling :: "(string \<rightharpoonup> string) \<Rightarrow> string" where
  "webrtc_signaling webrtc =
     ''sendrecv.stun-server='' @
     (case webrtc ''stun_server'' of
        None \<Rightarrow> ''stun:stun.l.google.com:19302''
      | Some stun \<Rightarrow> stun)"

text \<open>Lines 80 and 81: the returned string for a non-empty url list.\<close>

definition assemble :: "string list \<Rightarrow> (string \<rightharpoonup> string) \<Rightarrow> string" where
  "assemble urls webrtc =
     join '' '' (pipeline_parts urls) @
     '' '' @ compositor (length urls) @ '' '' @ webrtc_signaling webrtc"

definition no_valid_feeds :: error where
  "no_valid_feeds = ValueError ''No valid feeds selected for composite.''"

definition build_pipeline ::
  "feed list \<Rightarrow> json list \<Rightarrow> (string \<rightharpoonup> string) \<Rightarrow> error + string" where
  "build_pipeline feeds composite webrtc =
     (case selected_urls (feed_map feeds) composite of
        Inl e \<Rightarrow> Inl e
      | Inr urls \<Rightarrow>
          if urls = [] then Inl no_valid_feeds
          else Inr (assemble urls webrtc))"

subsection \<open>The process manager\<close>

text \<open>
  The records written through \<^verbatim>\<open>logging\<close>. The text of
  \<^verbatim>\<open>traceback.format_exc()\<close> is not modelled.
\<close>

datatype log_record =
    DEBUG_traceback
  | INFO string
  | WARNING string
  | ERROR string

text \<open>
  The mutable state: the global \<^verbatim>\<open>GST_PROCESS\<close> and what the program has done to
  the outside world. A \<^verbatim>\<open>Popen\<close> object is identified by its position in
  \<open>spawned\<close>, the list of command lines for which \<^verbatim>\<open>subprocess.Popen\<close> returned,
  so every successful call yields a fresh handle. \<open>released\<close> lists the handles that
  \<^verbatim>\<open>stop_gst\<close> has dropped, after its \<^verbatim>\<open>terminate()\<close> and
  \<^verbatim>\<open>wait(timeout=5)\<close> on them, whatever these answered. \<open>exited\<close> lists the
  workers whose exit the program has seen: those for which \<^verbatim>\<open>wait(timeout=5)\<close>
  returned. A worker whose \<^verbatim>\<open>wait\<close> raised \<^verbatim>\<open>TimeoutExpired\<close> had not
  exited when the 5 seconds were over; the code has no other call that ends a worker.
  The lock \<^verbatim>\<open>GST_LOCK\<close> makes each \<^verbatim>\<open>with\<close> block atomic; each function
  below is one such step.
\<close>

record manager =
  GST_PROCESS :: "nat option"
  spawned :: "string list"
  released :: "nat list"
  exited :: "nat list"
  log :: "log_record list"

definition initial :: manager where
  "initial = \<lparr>GST_PROCESS = None, spawned = [], released = [], exited = [], log = []\<rparr>"

definition logging :: "log_record list \<Rightarrow> manager \<Rightarrow> manager" where
  "logging rs s = s\<lparr>log := log s @ rs\<rparr>"

text \<open>
  What the operating system answers. \<^verbatim>\<open>subprocess.Popen\<close> returns a handle or
  raises; \<^verbatim>\<open>terminate()\<close> followed by \<^verbatim>\<open>wait(timeout=5)\<close> returns, raises
  \<^verbatim>\<open>TimeoutExpired\<close> when the worker has not exited after 5 seconds, or raises
  something else. Each exception carries its text.
\<close>

datatype popen_result = Popen_returns | Popen_raises string

datatype stop_result = Exited | TimeoutExpired string | Raised string

text \<open>
  Lines 86 to 106. The \<^verbatim>\<open>INFO\<close> record with the generated pipeline is the one
  that \<^verbatim>\<open>build_pipeline\<close> writes on line 82, just before it returns; the call of
  \<^verbatim>\<open>build_pipeline\<close> is outside the lock and touches no shared state.
\<close>

definition start_gst ::
  "manager \<Rightarrow> feed list \<Rightarrow> json list \<Rightarrow> (string \<rightharpoonup> string) \<Rightarrow> popen_result
     \<Rightarrow> bool \<times> manager" where
  "start_gst s feeds composite webrtc popen =
     (case build_pipeline feeds composite webrtc of
        Inl e \<Rightarrow>
          (False,
           logging [ERROR (''Failed to build pipeline: '' @ message e), DEBUG_traceback] s)
      | Inr pipeline \<Rightarrow>
          (let s1 = logging [INFO (''Generated GStreamer pipeline: '' @ pipeline)] s in
           case GST_PROCESS s1 of
             Some p \<Rightarrow> (False, logging [WARNING ''GStreamer process is already running.''] s1)
           | None \<Rightarrow>
               (case popen of
                  Popen_returns \<Rightarrow>
                    (True,
                     logging [INFO ''Started GStreamer process.'']
                       (s1\<lparr>GST_PROCESS := Some (length (spawned s1)),
                           spawned := spawned s1 @ [pipeline]\<rparr>))
                | Popen_raises e \<Rightarrow>
                    (False,
                     (logging
                        [ERROR (''Failed to start GStreamer process: '' @ e), DEBUG_traceback]
                        s1)\<lparr>GST_PROCESS := None\<rparr>))))"

text \<open>
  Lines 109 to 124. Whatever \<^verbatim>\<open>terminate()\<close> and \<^verbatim>\<open>wait(timeout=5)\<close>
  do, line 120 clears \<^verbatim>\<open>GST_PROCESS\<close> and line 121 returns \<^verbatim>\<open>True\<close>.
\<close>

definition stop_gst :: "manager \<Rightarrow> stop_result \<Rightarrow> bool \<times> manager" where
  "stop_gst s outcome =
     (case GST_PROCESS s of
        Some p \<Rightarrow>
          (True,
           (logging
              (case outcome of
                 Exited \<Rightarrow> [INFO ''Stopped GStreamer process.'']
               | TimeoutExpired e \<Rightarrow>
                   [ERROR (''Error stopping GStreamer process: '' @ e), DEBUG_traceback]
               | Raised e \<Rightarrow>
                   [ERROR (''Error stopping GStreamer process: '' @ e), DEBUG_traceback])
              s)\<lparr>GST_PROCESS := None,
                 released := p # released s,
                 exited := (case outcome of
                              Exited \<Rightarrow> p # exited s
                            | TimeoutExpired e \<Rightarrow> exited s
                            | Raised e \<Rightarrow> exited s)\<rparr>)
      | None \<Rightarrow> (False, logging [WARNING ''No GStreamer process to stop.''] s))"

subsection \<open>The HTTP handlers\<close>

text \<open>
  A response is a status code and the JSON object given to \<^verbatim>\<open>jsonify\<close>. The
  configuration is what \<^verbatim>\<open>load_config()\<close> returned for this request.
\<close>

record response =
  status_code :: nat
  body :: "(string \<times> json) list"

record config =
  cfg_feeds :: "feed list"
  cfg_composite :: "json list"
  cfg_webrtc :: "string \<rightharpoonup> string"

text \<open>Lines 126 to 144.\<close>

definition start :: "manager \<Rightarrow> config \<Rightarrow> popen_result \<Rightarrow> response \<times> manager" where
  "start s cfg popen =
     (case start_gst s (cfg_feeds cfg) (cfg_composite cfg) (cfg_webrtc cfg) popen of
        (True, s') \<Rightarrow>
          (\<lparr>status_code = 200, body = [(''status'', JString ''started'')]\<rparr>, s')
      | (False, s') \<Rightarrow>
          (\<lparr>status_code = 400, body = [(''status'', JString ''already running or error'')]\<rparr>,
           s'))"

text \<open>Lines 146 to 160.\<close>

definition stop :: "manager \<Rightarrow> stop_result \<Rightarrow> response \<times> manager" where
  "stop s outcome =
     (case stop_gst s outcome of
        (True, s') \<Rightarrow>
          (\<lparr>status_code = 200, body = [(''status'', JString ''stopped'')]\<rparr>, s')
      | (False, s') \<Rightarrow>
          (\<lparr>status_code = 400, body = [(''status'', JString ''not running'')]\<rparr>, s'))"

text \<open>
  Python's truth value of a JSON value (\<^verbatim>\<open>not composite\<close>) and
  \<^verbatim>\<open>isinstance(composite, list)\<close>.
\<close>

fun truthy :: "json \<Rightarrow> bool" where
  "truthy JNull = False"
| "truthy (JBool b) = b"
| "truthy (JNumber n) = (n \<noteq> 0)"
| "truthy (JString s) = (s \<noteq> [])"
| "truthy (JArray xs) = (xs \<noteq> [])"
| "truthy (JObject kvs) = (kvs \<noteq> [])"

fun is_list :: "json \<Rightarrow> bool" where
  "is_list (JArray xs) = True"
| "is_list v = False"

fun items :: "json \<Rightarrow> json list" where
  "items (JArray xs) = xs"
| "items v = []"

text \<open>
  Lines 162 to 191. \<open>data\<close> is the JSON object of the request body;
  \<^verbatim>\<open>data.get('composite')\<close> is \<^verbatim>\<open>None\<close> when the key is missing, which
  is also what a JSON \<^verbatim>\<open>null\<close> decodes to.
\<close>

definition update ::
  "manager \<Rightarrow> (string \<rightharpoonup> json) \<Rightarrow> config \<Rightarrow> stop_result \<Rightarrow> popen_result
     \<Rightarrow> response \<times> manager" where
  "update s data cfg outcome popen =
     (let composite = (case data ''composite'' of None \<Rightarrow> JNull | Some v \<Rightarrow> v);
          s1 = snd (stop_gst s outcome)
      in if \<not> truthy composite \<or> \<not> is_list composite then
           (\<lparr>status_code = 400, body = [(''status'', JString ''invalid composite'')]\<rparr>,
            logging [ERROR ''Invalid composite list provided in update request.''] s1)
         else
           (case start_gst s1 (cfg_feeds cfg) (items composite) (cfg_webrtc cfg) popen of
              (True, s2) \<Rightarrow>
                (\<lparr>status_code = 200,
                  body = [(''status'', JString ''updated''), (''composite'', composite)]\<rparr>,
                 s2)
            | (False, s2) \<Rightarrow>
                (\<lparr>status_code = 500, body = [(''status'', JString ''failed to update'')]\<rparr>,
                 s2)))"

text \<open>A request together with what the environment answers while it is served.\<close>

datatype request =
    Start config popen_result
  | Stop stop_result
  | Update "string \<rightharpoonup> json" config stop_result popen_result

fun serve :: "manager \<Rightarrow> request \<Rightarrow> response \<times> manager" where
  "serve s (Start cfg popen) = start s cfg popen"
| "serve s (Stop outcome) = stop s outcome"
| "serve s (Update data cfg outcome popen) = update s data cfg outcome popen"

text \<open>The state after serving a sequence of requests one after the other.\<close>

definition run :: "manager \<Rightarrow> request list \<Rightarrow> manager" where
  "run s reqs = foldl (\<lambda>s r. snd (serve s r)) s reqs"

text \<open>
  The handles the manager still owns: returned by \<^verbatim>\<open>Popen\<close> and not yet dropped
  by \<^verbatim>\<open>stop_gst\<close>. This counts handles, not processes: \<^verbatim>\<open>stop_gst\<close> drops
  the handle for every outcome of \<^verbatim>\<open>terminate()\<close> and \<^verbatim>\<open>wait(timeout=5)\<close>.
\<close>

definition held :: "manager \<Rightarrow> nat list" where
  "held s = filter (\<lambda>h. h \<notin> set (released s)) [0..<length (spawned s)]"

text \<open>
  The workers that are running as far as the program has seen: spawned, and no
  \<^verbatim>\<open>wait\<close> has returned for them. In an environment where a worker ends only when
  it is told to, these are the worker processes alive.
\<close>

definition running :: "manager \<Rightarrow> nat list" where
  "running s = filter (\<lambda>h. h \<notin> set (exited s)) [0..<length (spawned s)]"

text \<open>
  A request during which \<^verbatim>\<open>terminate()\<close> and \<^verbatim>\<open>wait(timeout=5)\<close>, if they
  are called, return without raising.
\<close>

fun waits_return :: "request \<Rightarrow> bool" where
  "waits_return (Start cfg popen) = True"
| "waits_return (Stop outcome) = (outcome = Exited)"
| "waits_return (Update data cfg outcome popen) = (outcome = Exited)"

text \<open>
  The invariant of the manager: every handle that \<^verbatim>\<open>stop_gst\<close> dropped was
  returned by \<^verbatim>\<open>Popen\<close> before, and the handles still owned are exactly the one in
  \<^verbatim>\<open>GST_PROCESS\<close>, if any.
\<close>

definition handle_inv :: "manager \<Rightarrow> bool" where
  "handle_inv s \<longleftrightarrow>
     set (released s) \<subseteq> {..<length (spawned s)} \<and>
     held s = (case GST_PROCESS s of None \<Rightarrow> [] | Some h \<Rightarrow> [h])"

text \<open>The 4xx range of HTTP status codes.\<close>

definition is_4xx :: "nat \<Rightarrow> bool" where
  "is_4xx code \<longleftrightarrow> 400 \<le> code \<and> code < 500"

section \<open>Auxiliary facts\<close>

subsection \<open>Decimal formatting\<close>

lemma str_digit: "n < 10 \<Longrightarrow> str n = [digit n]"
  by (simp add: str.simps)

lemma str_0: "str 0 = ''0''"
  by (simp add: str.simps digit_def)

lemma str_Suc_0: "str (Suc 0) = ''1''"
  by (simp add: str.simps digit_def)

lemma str_numeral:
  "str (numeral k) =
     (if numeral k < (10::nat) then [digit (numeral k)]
      else str (numeral k div 10) @ [digit (numeral k mod 10)])"
  by (rule str.simps)

lemmas str_eval = str_0 str_Suc_0 str_numeral digit_def

text \<open>\<^verbatim>\<open>str\<close> is one-to-one, and its result holds decimal digits only.\<close>

lemma digit_inj: "a < 10 \<Longrightarrow> b < 10 \<Longrightarrow> digit a = digit b \<Longrightarrow> a = b"
proof -
  assume a: "a < 10" and b: "b < 10" and eq: "digit a = digit b"
  have d: "distinct ''0123456789''" by simp
  have "length ''0123456789'' = 10" by simp
  with a b have "a < length ''0123456789''" "b < length ''0123456789''" by simp_all
  with d eq show "a = b" by (simp add: digit_def nth_eq_iff_index_eq)
qed

lemma str_not_Nil: "str n \<noteq> []"
  by (subst str.simps) simp

lemma digit_in_digits: "d < 10 \<Longrightarrow> digit d \<in> set ''0123456789''"
proof -
  assume "d < 10"
  then have "d < length ''0123456789''" by simp
  then show ?thesis unfolding digit_def by (rule nth_mem)
qed

lemma set_str: "set (str n) \<subseteq> set ''0123456789''"
proof (induction n rule: str.induct)
  case (1 n)
  show ?case
  proof (cases "n < 10")
    case True
    then show ?thesis using digit_in_digits [of n] by (subst str.simps) simp
  next
    case False
    have "n mod 10 < 10" by simp
    from digit_in_digits [OF this] 1 [OF False] False show ?thesis
      by (subst str.simps) simp
  qed
qed

lemma str_inj: "str i = str j \<Longrightarrow> i = j"
proof (induction i arbitrary: j rule: str.induct)
  case (1 i)
  show ?case
  proof (cases "i < 10")
    case True
    note i = this
    show ?thesis
    proof (cases "j < 10")
      case True
      with i "1.prems" have "digit i = digit j" by (simp add: str.simps [of i] str.simps [of j])
      with i True show ?thesis by (rule digit_inj)
    next
      case False
      with i "1.prems" have "[digit i] = str (j div 10) @ [digit (j mod 10)]"
        by (simp add: str.simps [of i] str.simps [of j])
      then have "str (j div 10) = []" by simp
      with str_not_Nil show ?thesis by blast
    qed
  next
    case False
    note i = this
    show ?thesis
    proof (cases "j < 10")
      case True
      with i "1.prems" have "str (i div 10) @ [digit (i mod 10)] = [digit j]"
        by (simp add: str.simps [of i] str.simps [of j])
      then have "str (i div 10) = []" by simp
      with str_not_Nil show ?thesis by blast
    next
      case False
      with i "1.prems" have "str (i div 10) @ [digit (i mod 10)] = str (j div 10) @ [digit (j mod 10)]"
        by (simp add: str.simps [of i] str.simps [of j])
      then have a: "str (i div 10) = str (j div 10)" and b: "digit (i mod 10) = digit (j mod 10)"
        by simp_all
      from "1.IH" [OF i a] have "i div 10 = j div 10" .
      moreover from b have "i mod 10 = j mod 10" by (intro digit_inj) simp_all
      ultimately show ?thesis by (metis div_mult_mod_eq)
    qed
  qed
qed

lemma colon_not_in_str: "CHR '':'' \<notin> set (str n)"
  using set_str [of n] by auto

lemma str_colon_inj:
  assumes "str i @ CHR '':'' # r = str j @ CHR '':'' # r'"
  shows "i = j"
proof -
  have "takeWhile (\<lambda>x. x \<noteq> CHR '':'') (str i @ CHR '':'' # r) = str i"
    using colon_not_in_str [of i] by (auto simp: takeWhile_tail takeWhile_eq_all_conv)
  moreover have "takeWhile (\<lambda>x. x \<noteq> CHR '':'') (str j @ CHR '':'' # r') = str j"
    using colon_not_in_str [of j] by (auto simp: takeWhile_tail takeWhile_eq_all_conv)
  ultimately have "str i = str j" using assms by simp
  then show ?thesis by (rule str_inj)
qed

subsection \<open>The catalog and the selection\<close>

lemma dom_foldl_feeds:
  "dom (foldl (\<lambda>m f. m(name f \<mapsto> url f)) m0 feeds) = dom m0 \<union> name ` set feeds"
  by (induction feeds arbitrary: m0) auto

lemma dom_feed_map: "dom (feed_map feeds) = name ` set feeds"
  by (simp add: feed_map_def dom_foldl_feeds)

lemma feed_map_snoc: "feed_map (fs @ [f]) = (feed_map fs)(name f \<mapsto> url f)"
  by (simp add: feed_map_def)

text \<open>With unique names, as the catalog is meant to have, every feed is found under its name.\<close>

lemma feed_map_unique:
  "distinct (map name feeds) \<Longrightarrow> f \<in> set feeds \<Longrightarrow> feed_map feeds (name f) = Some (url f)"
proof (induction feeds rule: rev_induct)
  case Nil
  then show ?case by simp
next
  case (snoc x xs)
  show ?case
  proof (cases "f = x")
    case True
    then show ?thesis by (simp add: feed_map_snoc)
  next
    case False
    with snoc.prems have "f \<in> set xs" by simp
    then have "name f \<in> name ` set xs" by (rule imageI)
    with snoc.prems have "name f \<noteq> name x" by auto
    note \<open>f \<in> set xs\<close> this
    with snoc show ?thesis by (simp add: feed_map_snoc)
  qed
qed

lemma selected_urls_names:
  "selected_urls fm (map JString sel) = Inr (List.map_filter fm sel)"
  by (induction sel) (simp_all add: map_filter_simps split: option.splits)

lemma map_filter_dom:
  "List.map_filter fm sel = map (\<lambda>n. the (fm n)) (filter (\<lambda>n. n \<in> dom fm) sel)"
  by (induction sel) (auto simp: map_filter_simps split: option.splits)

lemma build_pipeline_unknown:
  assumes "\<forall>n\<in>set sel. n \<notin> name ` set feeds"
  shows "build_pipeline feeds (map JString sel) webrtc = Inl no_valid_feeds"
proof -
  from assms have "filter (\<lambda>n. n \<in> name ` set feeds) sel = []"
    by (simp add: filter_empty_conv)
  then have "selected_urls (feed_map feeds) (map JString sel) = Inr []"
    by (simp add: selected_urls_names map_filter_dom dom_feed_map)
  then show ?thesis
    by (simp add: build_pipeline_def)
qed

subsection \<open>Source chains and compositor sinks\<close>

lemma length_pipeline_parts: "length (pipeline_parts urls) = length urls"
  by (simp add: pipeline_parts_def)

lemma pipeline_parts_nth:
  "i < length urls \<Longrightarrow> pipeline_parts urls ! i = source_chain i (urls ! i)"
  by (simp add: pipeline_parts_def nth_enumerate_eq)

lemma pipeline_parts_map:
  "pipeline_parts (map g ns) = map (\<lambda>(idx, n). source_chain idx (g n)) (enumerate 0 ns)"
  by (simp add: pipeline_parts_def list_eq_iff_nth_eq nth_enumerate_eq)

lemma sink_props_0: "sink_props 0 = ''sink_0::xpos=0 sink_0::ypos=0 ''"
  by (simp add: sink_props_def str_0)

lemma compositor_slots:
  "0 < n \<Longrightarrow> compositor n = ''compositor name=mix '' @ concat (map sink_props [0..<n]) @ encode_chain"
  by (simp add: compositor_def upt_conv_Cons [of 0 n] sink_props_0)

lemma length_filter_upt_nth:
  "length (filter (\<lambda>i. P (xs ! i)) [0..<length xs]) = length (filter P xs)"
proof -
  have "{i. i < length [0..<length xs] \<and> P (xs ! ([0..<length xs] ! i))} =
        {i. i < length xs \<and> P (xs ! i)}"
    by auto
  then show ?thesis
    by (simp only: length_filter_conv_card [of "\<lambda>i. P (xs ! i)"] length_filter_conv_card [of P])
qed

lemma count_list_filter: "count_list xs c = length (filter (\<lambda>n. n = c) xs)"
  by (induction xs) simp_all

lemma join_blank:
  "ps \<noteq> [] \<Longrightarrow> join sep ps @ sep @ rest = concat (map (\<lambda>p. p @ sep) ps) @ rest"
proof (induction ps)
  case Nil
  then show ?case by simp
next
  case (Cons p ps)
  show ?case
  proof (cases ps)
    case Nil
    then show ?thesis by simp
  next
    case (Cons q qs)
    with Cons.IH have "join sep (q # qs) @ sep @ rest = concat (map (\<lambda>p. p @ sep) (q # qs)) @ rest"
      by simp
    with Cons show ?thesis by simp
  qed
qed

lemma pipeline_parts_upt:
  "pipeline_parts urls = map (\<lambda>i. source_chain i (urls ! i)) [0..<length urls]"
proof (rule nth_equalityI)
  show "length (pipeline_parts urls) = length (map (\<lambda>i. source_chain i (urls ! i)) [0..<length urls])"
    by (simp add: length_pipeline_parts)
next
  fix i assume "i < length (pipeline_parts urls)"
  then have "i < length urls" by (simp add: length_pipeline_parts)
  then show "pipeline_parts urls ! i = map (\<lambda>i. source_chain i (urls ! i)) [0..<length urls] ! i"
    by (simp add: pipeline_parts_nth)
qed

text \<open>The returned string, written out: every chain is followed by a blank.\<close>

lemma assemble_text:
  assumes "urls \<noteq> []"
  shows "assemble urls webrtc =
     concat (map (\<lambda>i. ''rtspsrc location='' @ urls ! i @
        '' latency=100 ! rtph264depay ! h264parse ! avdec_h264 ! videoconvert ! videoscale ! video/x-raw,width=640,height=360 ! queue name=q''
        @ str i @ '' '') [0..<length urls]) @
     ''compositor name=mix '' @
     concat (map (\<lambda>i. ''sink_'' @ str i @ ''::xpos='' @ str ((i mod 3) * 640) @
                      '' sink_'' @ str i @ ''::ypos='' @ str ((i div 3) * 360) @ '' '')
               [0..<length urls]) @
     encode_chain @ '' '' @ webrtc_signaling webrtc"
proof -
  from assms have ne: "pipeline_parts urls \<noteq> []"
    using length_pipeline_parts [of urls] by auto
  from assms have "0 < length urls" by simp
  then have comp: "compositor (length urls) =
      ''compositor name=mix '' @ concat (map sink_props [0..<length urls]) @ encode_chain"
    by (rule compositor_slots)
  have sink: "sink_props = (\<lambda>i. ''sink_'' @ str i @ ''::xpos='' @ str ((i mod 3) * 640) @
                      '' sink_'' @ str i @ ''::ypos='' @ str ((i div 3) * 360) @ '' '')"
    by (rule ext) (simp add: sink_props_def)
  have "assemble urls webrtc =
      concat (map (\<lambda>p. p @ '' '') (pipeline_parts urls)) @
      compositor (length urls) @ '' '' @ webrtc_signaling webrtc"
    unfolding assemble_def by (rule join_blank [OF ne])
  also have "map (\<lambda>p. p @ '' '') (pipeline_parts urls) =
      map (\<lambda>i. ''rtspsrc location='' @ urls ! i @
        '' latency=100 ! rtph264depay ! h264parse ! avdec_h264 ! videoconvert ! videoscale ! video/x-raw,width=640,height=360 ! queue name=q''
        @ str i @ '' '') [0..<length urls]"
    by (simp add: pipeline_parts_upt source_chain_def)
  finally show ?thesis by (simp add: comp sink)
qed

subsection \<open>The manager's invariant\<close>

lemma held_logging [simp]: "held (logging rs s) = held s"
  by (simp add: held_def logging_def)

lemma fields_logging [simp]:
  "GST_PROCESS (logging rs s) = GST_PROCESS s"
  "spawned (logging rs s) = spawned s"
  "released (logging rs s) = released s"
  by (simp_all add: logging_def)

lemma inv_logging [simp]: "handle_inv (logging rs s) = handle_inv s"
  by (simp add: handle_inv_def)

lemma set_held: "set (held s) = {h. h < length (spawned s) \<and> h \<notin> set (released s)}"
  by (auto simp: held_def)

lemma held_spawn:
  assumes "set (released s) \<subseteq> {..<length (spawned s)}"
    and "spawned s' = spawned s @ [p]" and "released s' = released s"
  shows "held s' = held s @ [length (spawned s)]"
  using assms by (auto simp: held_def)

lemma held_release:
  assumes "spawned s' = spawned s" and "released s' = h # released s"
  shows "held s' = filter (\<lambda>k. k \<noteq> h) (held s)"
  using assms by (auto simp: held_def intro: filter_cong)

text \<open>Each step taken under the lock keeps the invariant, whatever the environment answers.\<close>

lemma inv_start_gst:
  assumes "handle_inv s"
  shows "handle_inv (snd (start_gst s feeds composite webrtc popen))"
proof (cases "build_pipeline feeds composite webrtc")
  case (Inl e)
  with assms show ?thesis by (simp add: start_gst_def)
next
  case (Inr pipeline)
  show ?thesis
  proof (cases "GST_PROCESS s")
    case (Some h)
    with Inr assms show ?thesis by (simp add: start_gst_def Let_def)
  next
    case None
    with assms have rel: "set (released s) \<subseteq> {..<length (spawned s)}" and "held s = []"
      by (simp_all add: handle_inv_def)
    show ?thesis
    proof (cases popen)
      case Popen_returns
      let ?s' = "snd (start_gst s feeds composite webrtc popen)"
      have sp: "spawned ?s' = spawned s @ [pipeline]" and re: "released ?s' = released s"
        and g: "GST_PROCESS ?s' = Some (length (spawned s))"
        using Inr None Popen_returns by (simp_all add: start_gst_def Let_def)
      have "held ?s' = [length (spawned s)]"
        using held_spawn [OF rel sp re] \<open>held s = []\<close> by simp
      moreover have "set (released ?s') \<subseteq> {..<length (spawned ?s')}"
        using rel sp re by auto
      ultimately show ?thesis by (simp add: handle_inv_def g)
    next
      case (Popen_raises e)
      let ?s' = "snd (start_gst s feeds composite webrtc popen)"
      have "spawned ?s' = spawned s" "released ?s' = released s" "GST_PROCESS ?s' = None"
        using Inr None Popen_raises by (simp_all add: start_gst_def Let_def)
      with rel \<open>held s = []\<close> show ?thesis by (simp add: handle_inv_def held_def)
    qed
  qed
qed

lemma inv_stop_gst:
  assumes "handle_inv s"
  shows "handle_inv (snd (stop_gst s outcome))"
proof (cases "GST_PROCESS s")
  case None
  with assms show ?thesis by (simp add: stop_gst_def)
next
  case (Some h)
  let ?s' = "snd (stop_gst s outcome)"
  from assms Some have rel: "set (released s) \<subseteq> {..<length (spawned s)}" and "held s = [h]"
    by (simp_all add: handle_inv_def)
  have sp: "spawned ?s' = spawned s" and re: "released ?s' = h # released s"
    and g: "GST_PROCESS ?s' = None"
    using Some by (simp_all add: stop_gst_def)
  have "h \<in> set (held s)" using \<open>held s = [h]\<close> by simp
  then have "h < length (spawned s)" by (simp add: set_held)
  with rel sp re have "set (released ?s') \<subseteq> {..<length (spawned ?s')}" by simp
  moreover have "held ?s' = []"
    using held_release [OF sp re] \<open>held s = [h]\<close> by simp
  ultimately show ?thesis by (simp add: handle_inv_def g)
qed

lemma inv_serve: "handle_inv s \<Longrightarrow> handle_inv (snd (serve s r))"
proof (cases r)
  case (Start cfg popen)
  assume "handle_inv s"
  from inv_start_gst [OF this] Start show ?thesis
    by (simp add: start_def split: prod.splits bool.splits) (metis snd_conv)
next
  case (Stop outcome)
  assume "handle_inv s"
  from inv_stop_gst [OF this] Stop show ?thesis
    by (simp add: stop_def split: prod.splits bool.splits) (metis snd_conv)
next
  case (Update data cfg outcome popen)
  assume "handle_inv s"
  then have "handle_inv (snd (stop_gst s outcome))" by (rule inv_stop_gst)
  from this inv_start_gst [OF this] Update show ?thesis
    by (simp add: update_def Let_def split: prod.splits bool.splits) (metis snd_conv)
qed

lemma inv_initial: "handle_inv initial"
  by (simp add: handle_inv_def initial_def held_def)

lemma inv_run: "handle_inv s \<Longrightarrow> handle_inv (run s reqs)"
  unfolding run_def by (induction reqs arbitrary: s) (simp_all add: inv_serve)

text \<open>
  What the program has seen of its workers: a worker counted as exited has been dropped by
  \<^verbatim>\<open>stop_gst\<close>, and when every \<^verbatim>\<open>wait\<close> returns the two lists agree.
\<close>

lemma fields_start_gst:
  "released (snd (start_gst s feeds composite webrtc popen)) = released s"
  "exited (snd (start_gst s feeds composite webrtc popen)) = exited s"
  by (simp_all add: start_gst_def Let_def logging_def
        split: sum.splits option.splits popen_result.splits)

lemma exited_logging [simp]: "exited (logging rs s) = exited s"
  by (simp add: logging_def)

lemma exited_stop_gst_subset:
  "set (exited s) \<subseteq> set (released s) \<Longrightarrow>
   set (exited (snd (stop_gst s outcome))) \<subseteq> set (released (snd (stop_gst s outcome)))"
  by (auto simp: stop_gst_def split: option.splits stop_result.splits)

lemma exited_stop_gst_clean:
  "exited s = released s \<Longrightarrow>
   exited (snd (stop_gst s Exited)) = released (snd (stop_gst s Exited))"
  by (simp add: stop_gst_def split: option.splits)

lemma snd_start: "snd (start s cfg popen) =
    snd (start_gst s (cfg_feeds cfg) (cfg_composite cfg) (cfg_webrtc cfg) popen)"
  by (simp add: start_def split: prod.splits bool.splits)

lemma snd_stop: "snd (stop s outcome) = snd (stop_gst s outcome)"
  by (simp add: stop_def split: prod.splits bool.splits)

lemma exited_update:
  "exited (snd (update s data cfg outcome popen)) = exited (snd (stop_gst s outcome))"
  "released (snd (update s data cfg outcome popen)) = released (snd (stop_gst s outcome))"
  by (simp_all add: update_def Let_def fields_start_gst split: prod.splits bool.splits)
     (metis fields_start_gst snd_conv)+

lemma exited_serve_subset:
  assumes "set (exited s) \<subseteq> set (released s)"
  shows "set (exited (snd (serve s r))) \<subseteq> set (released (snd (serve s r)))"
proof (cases r)
  case (Start cfg popen)
  with assms show ?thesis by (simp add: snd_start fields_start_gst)
next
  case (Stop outcome)
  with exited_stop_gst_subset [OF assms] show ?thesis by (simp add: snd_stop)
next
  case (Update data cfg outcome popen)
  with exited_stop_gst_subset [OF assms] show ?thesis by (simp add: exited_update)
qed

lemma exited_serve_clean:
  assumes "exited s = released s" and "waits_return r"
  shows "exited (snd (serve s r)) = released (snd (serve s r))"
proof (cases r)
  case (Start cfg popen)
  with assms show ?thesis by (simp add: snd_start fields_start_gst)
next
  case (Stop outcome)
  with assms exited_stop_gst_clean [OF assms(1)] show ?thesis by (simp add: snd_stop)
next
  case (Update data cfg outcome popen)
  with assms exited_stop_gst_clean [OF assms(1)] show ?thesis by (simp add: exited_update)
qed

lemma exited_run_subset:
  "set (exited s) \<subseteq> set (released s) \<Longrightarrow>
   set (exited (run s reqs)) \<subseteq> set (released (run s reqs))"
  unfolding run_def by (induction reqs arbitrary: s) (simp_all add: exited_serve_subset)

lemma exited_run_clean:
  "exited s = released s \<Longrightarrow> \<forall>q\<in>set reqs. waits_return q \<Longrightarrow>
   exited (run s reqs) = released (run s reqs)"
  unfolding run_def by (induction reqs arbitrary: s) (simp_all add: exited_serve_clean)

lemma set_running: "set (running s) = {h. h < length (spawned s) \<and> h \<notin> set (exited s)}"
  by (auto simp: running_def)

text \<open>
  The state after a first successful \<^verbatim>\<open>start_gst\<close> on a one-feed catalog; the
  examples below start from it.
\<close>

lemma running_example:
  "start_gst initial [\<lparr>name = ''cam1'', url = ''urlA''\<rparr>] [JString ''cam1''] Map.empty Popen_returns =
     (True,
      \<lparr>GST_PROCESS = Some 0,
       spawned = [assemble [''urlA''] Map.empty],
       released = [],
       exited = [],
       log = [INFO (''Generated GStreamer pipeline: '' @ assemble [''urlA''] Map.empty),
              INFO ''Started GStreamer process.'']\<rparr>)"
  by (simp add: start_gst_def build_pipeline_def feed_map_def initial_def logging_def)

section \<open>The claims\<close>

text \<open>
  Claim C1 (process uniqueness), as the code has it. In every state reached from the initial
  one by any sequence of \<^verbatim>\<open>/start\<close>, \<^verbatim>\<open>/stop\<close> and \<^verbatim>\<open>/update\<close>
  requests, whatever \<^verbatim>\<open>Popen\<close>, \<^verbatim>\<open>terminate\<close> and \<^verbatim>\<open>wait\<close> answer:
  the handles the manager owns (returned by \<^verbatim>\<open>Popen\<close> and not yet dropped by
  \<^verbatim>\<open>stop_gst\<close>) are exactly the one in \<^verbatim>\<open>GST_PROCESS\<close>, or none when it is
  \<^verbatim>\<open>None\<close>, so at most one handle exists, also after one more request; when a handle is
  held, \<^verbatim>\<open>start_gst\<close> returns \<^verbatim>\<open>False\<close>, does not call \<^verbatim>\<open>Popen\<close> and
  leaves handle and workers as they are; the running workers are the held one and those that
  \<^verbatim>\<open>stop_gst\<close> dropped without seeing them exit; and when \<^verbatim>\<open>terminate\<close> and
  \<^verbatim>\<open>wait\<close> returned in every request, the running workers are exactly the held
  handle, so at most one worker runs.
\<close>

theorem handle_uniqueness:
  assumes "s = run initial reqs"
  shows "held s = (case GST_PROCESS s of None \<Rightarrow> [] | Some h \<Rightarrow> [h]) \<and>
         length (held s) \<le> 1 \<and>
         length (held (snd (serve s r))) \<le> 1 \<and>
         (GST_PROCESS s \<noteq> None \<longrightarrow>
            fst (start_gst s feeds composite webrtc popen) = False \<and>
            GST_PROCESS (snd (start_gst s feeds composite webrtc popen)) = GST_PROCESS s \<and>
            spawned (snd (start_gst s feeds composite webrtc popen)) = spawned s \<and>
            held (snd (start_gst s feeds composite webrtc popen)) = held s \<and>
            running (snd (start_gst s feeds composite webrtc popen)) = running s) \<and>
         set (running s) = set (held s) \<union> (set (released s) - set (exited s)) \<and>
         ((\<forall>q\<in>set reqs. waits_return q) \<longrightarrow> running s = held s \<and> length (running s) \<le> 1)"
proof -
  have inv: "handle_inv s"
    unfolding assms by (rule inv_run [OF inv_initial])
  then have one: "held s = (case GST_PROCESS s of None \<Rightarrow> [] | Some h \<Rightarrow> [h])"
    and rel: "set (released s) \<subseteq> {..<length (spawned s)}"
    by (simp_all add: handle_inv_def)
  from one have le: "length (held s) \<le> 1" by (simp split: option.splits)
  from inv have "handle_inv (snd (serve s r))" by (rule inv_serve)
  then have next_one: "length (held (snd (serve s r))) \<le> 1"
    by (simp add: handle_inv_def split: option.splits)
  have guarded: "GST_PROCESS s \<noteq> None \<longrightarrow>
            fst (start_gst s feeds composite webrtc popen) = False \<and>
            GST_PROCESS (snd (start_gst s feeds composite webrtc popen)) = GST_PROCESS s \<and>
            spawned (snd (start_gst s feeds composite webrtc popen)) = spawned s \<and>
            held (snd (start_gst s feeds composite webrtc popen)) = held s \<and>
            running (snd (start_gst s feeds composite webrtc popen)) = running s"
    by (auto simp: start_gst_def Let_def held_def running_def split: sum.splits)
  have sub: "set (exited s) \<subseteq> set (released s)"
    unfolding assms by (rule exited_run_subset) (simp add: initial_def)
  have split: "set (running s) = set (held s) \<union> (set (released s) - set (exited s))"
    using rel sub by (auto simp: set_running set_held)
  have clean: "(\<forall>q\<in>set reqs. waits_return q) \<longrightarrow> running s = held s \<and> length (running s) \<le> 1"
  proof
    assume "\<forall>q\<in>set reqs. waits_return q"
    then have "exited s = released s"
      unfolding assms by (intro exited_run_clean) (simp_all add: initial_def)
    then have "running s = held s" by (simp add: running_def held_def)
    with le show "running s = held s \<and> length (running s) \<le> 1" by simp
  qed
  from one le next_one guarded split clean show ?thesis by blast
qed

text \<open>
  An instance: a start, then an update whose stop sees the first worker exit. Worker 1 is the
  only one held and the only one running, and a further \<^verbatim>\<open>start_gst\<close> spawns nothing.
\<close>

theorem handle_uniqueness_witness:
  "GST_PROCESS (run initial
     [Start \<lparr>cfg_feeds = [\<lparr>name = ''cam1'', url = ''urlA''\<rparr>], cfg_composite = [JString ''cam1''],
        cfg_webrtc = Map.empty\<rparr> Popen_returns,
      Update [''composite'' \<mapsto> JArray [JString ''cam1'']]
        \<lparr>cfg_feeds = [\<lparr>name = ''cam1'', url = ''urlA''\<rparr>], cfg_composite = [JString ''cam1''],
        cfg_webrtc = Map.empty\<rparr> Exited Popen_returns]) = Some 1 \<and>
   held (run initial
     [Start \<lparr>cfg_feeds = [\<lparr>name = ''cam1'', url = ''urlA''\<rparr>], cfg_composite = [JString ''cam1''],
        cfg_webrtc = Map.empty\<rparr> Popen_returns,
      Update [''composite'' \<mapsto> JArray [JString ''cam1'']]
        \<lparr>cfg_feeds = [\<lparr>name = ''cam1'', url = ''urlA''\<rparr>], cfg_composite = [JString ''cam1''],
        cfg_webrtc = Map.empty\<rparr> Exited Popen_returns]) = [1] \<and>
   running (run initial
     [Start \<lparr>cfg_feeds = [\<lparr>name = ''cam1'', url = ''urlA''\<rparr>], cfg_composite = [JString ''cam1''],
        cfg_webrtc = Map.empty\<rparr> Popen_returns,
      Update [''composite'' \<mapsto> JArray [JString ''cam1'']]
        \<lparr>cfg_feeds = [\<lparr>name = ''cam1'', url = ''urlA''\<rparr>], cfg_composite = [JString ''cam1''],
        cfg_webrtc = Map.empty\<rparr> Exited Popen_returns]) = [1] \<and>
   spawned (snd (start_gst (run initial
     [Start \<lparr>cfg_feeds = [\<lparr>name = ''cam1'', url = ''urlA''\<rparr>], cfg_composite = [JString ''cam1''],
        cfg_webrtc = Map.empty\<rparr> Popen_returns,
      Update [''composite'' \<mapsto> JArray [JString ''cam1'']]
        \<lparr>cfg_feeds = [\<lparr>name = ''cam1'', url = ''urlA''\<rparr>], cfg_composite = [JString ''cam1''],
        cfg_webrtc = Map.empty\<rparr> Exited Popen_returns])
     [\<lparr>name = ''cam1'', url = ''urlA''\<rparr>] [JString ''cam1''] Map.empty Popen_returns)) = [assemble [''urlA''] Map.empty, assemble [''urlA''] Map.empty]"
proof -
  have r: "run initial
     [Start \<lparr>cfg_feeds = [\<lparr>name = ''cam1'', url = ''urlA''\<rparr>], cfg_composite = [JString ''cam1''],
        cfg_webrtc = Map.empty\<rparr> Popen_returns,
      Update [''composite'' \<mapsto> JArray [JString ''cam1'']]
        \<lparr>cfg_feeds = [\<lparr>name = ''cam1'', url = ''urlA''\<rparr>], cfg_composite = [JString ''cam1''],
        cfg_webrtc = Map.empty\<rparr> Exited Popen_returns] =
     \<lparr>GST_PROCESS = Some 1,
      spawned = [assemble [''urlA''] Map.empty, assemble [''urlA''] Map.empty],
      released = [0],
      exited = [0],
      log = [INFO (''Generated GStreamer pipeline: '' @ assemble [''urlA''] Map.empty),
             INFO ''Started GStreamer process.'',
             INFO ''Stopped GStreamer process.'',
             INFO (''Generated GStreamer pipeline: '' @ assemble [''urlA''] Map.empty),
             INFO ''Started GStreamer process.'']\<rparr>"
    by (simp add: run_def start_def update_def start_gst_def stop_gst_def build_pipeline_def
          feed_map_def initial_def logging_def)
  show ?thesis
    using handle_uniqueness [OF r [symmetric],
        where feeds = "[\<lparr>name = ''cam1'', url = ''urlA''\<rparr>]" and composite = "[JString ''cam1'']"
          and webrtc = Map.empty and popen = Popen_returns]
    by (simp add: r)
qed

text \<open>
  Claim C1 as it is worded says that no operation ever creates a second running worker. After
  a start, a stop whose \<^verbatim>\<open>wait(timeout=5)\<close> raises \<^verbatim>\<open>TimeoutExpired\<close> and a
  second start, the manager holds the one handle 1, and workers 0 and 1 are both running:
  lines 117 to 120 log the exception and clear \<^verbatim>\<open>GST_PROCESS\<close>, nothing ends worker 0,
  and the second start finds \<^verbatim>\<open>GST_PROCESS\<close> empty and spawns.
\<close>

theorem two_workers_after_timed_out_stop:
  "GST_PROCESS (run initial
     [Start \<lparr>cfg_feeds = [\<lparr>name = ''cam1'', url = ''urlA''\<rparr>], cfg_composite = [JString ''cam1''],
        cfg_webrtc = Map.empty\<rparr> Popen_returns,
      Stop (TimeoutExpired ''timed out after 5 seconds''),
      Start \<lparr>cfg_feeds = [\<lparr>name = ''cam1'', url = ''urlA''\<rparr>], cfg_composite = [JString ''cam1''],
        cfg_webrtc = Map.empty\<rparr> Popen_returns]) = Some 1 \<and>
   running (run initial
     [Start \<lparr>cfg_feeds = [\<lparr>name = ''cam1'', url = ''urlA''\<rparr>], cfg_composite = [JString ''cam1''],
        cfg_webrtc = Map.empty\<rparr> Popen_returns,
      Stop (TimeoutExpired ''timed out after 5 seconds''),
      Start \<lparr>cfg_feeds = [\<lparr>name = ''cam1'', url = ''urlA''\<rparr>], cfg_composite = [JString ''cam1''],
        cfg_webrtc = Map.empty\<rparr> Popen_returns]) = [0, 1] \<and>
   \<not> length (running (run initial
     [Start \<lparr>cfg_feeds = [\<lparr>name = ''cam1'', url = ''urlA''\<rparr>], cfg_composite = [JString ''cam1''],
        cfg_webrtc = Map.empty\<rparr> Popen_returns,
      Stop (TimeoutExpired ''timed out after 5 seconds''),
      Start \<lparr>cfg_feeds = [\<lparr>name = ''cam1'', url = ''urlA''\<rparr>], cfg_composite = [JString ''cam1''],
        cfg_webrtc = Map.empty\<rparr> Popen_returns])) \<le> 1"
proof -
  have r: "run initial
     [Start \<lparr>cfg_feeds = [\<lparr>name = ''cam1'', url = ''urlA''\<rparr>], cfg_composite = [JString ''cam1''],
        cfg_webrtc = Map.empty\<rparr> Popen_returns,
      Stop (TimeoutExpired ''timed out after 5 seconds''),
      Start \<lparr>cfg_feeds = [\<lparr>name = ''cam1'', url = ''urlA''\<rparr>], cfg_composite = [JString ''cam1''],
        cfg_webrtc = Map.empty\<rparr> Popen_returns] =
     \<lparr>GST_PROCESS = Some 1,
      spawned = [assemble [''urlA''] Map.empty, assemble [''urlA''] Map.empty],
      released = [0],
      exited = [],
      log = [INFO (''Generated GStreamer pipeline: '' @ assemble [''urlA''] Map.empty),
             INFO ''Started GStreamer process.'',
             ERROR (''Error stopping GStreamer process: '' @ ''timed out after 5 seconds''),
             DEBUG_traceback,
             INFO (''Generated GStreamer pipeline: '' @ assemble [''urlA''] Map.empty),
             INFO ''Started GStreamer process.'']\<rparr>"
    by (simp add: run_def start_def stop_def start_gst_def stop_gst_def build_pipeline_def
          feed_map_def initial_def logging_def)
  have two: "[0..<2] = [0, 1]" by (simp add: upt_conv_Cons)
  show ?thesis
    by (simp add: r running_def two)
qed

text \<open>
  Claim C2 (filtering and slot indices). For every catalog and every selection of names, the
  urls that \<^verbatim>\<open>build_pipeline\<close> keeps are those of the selection entries whose name
  is in the catalog, in selection order, unknown names being dropped; and the source chains are
  numbered \<open>0, 1, ...\<close> along this filtered list, not along the raw selection.
\<close>

theorem retained_feeds_in_selection_order:
  "selected_urls (feed_map feeds) (map JString sel) =
     Inr (map (\<lambda>n. the (feed_map feeds n)) (filter (\<lambda>n. n \<in> name ` set feeds) sel)) \<and>
   pipeline_parts (map (\<lambda>n. the (feed_map feeds n)) (filter (\<lambda>n. n \<in> name ` set feeds) sel)) =
     map (\<lambda>(idx, n). source_chain idx (the (feed_map feeds n)))
       (enumerate 0 (filter (\<lambda>n. n \<in> name ` set feeds) sel))"
  by (simp add: selected_urls_names map_filter_dom dom_feed_map pipeline_parts_map)

text \<open>The scenario of the specification: \<open>cam9\<close> is dropped, \<open>cam3\<close> gets index 1.\<close>

theorem retained_feeds_example:
  "selected_urls
     (feed_map [\<lparr>name = ''cam1'', url = ''urlA''\<rparr>, \<lparr>name = ''cam2'', url = ''urlB''\<rparr>,
                \<lparr>name = ''cam3'', url = ''urlC''\<rparr>])
     [JString ''cam1'', JString ''cam3'', JString ''cam9''] = Inr [''urlA'', ''urlC''] \<and>
   pipeline_parts [''urlA'', ''urlC''] = [source_chain 0 ''urlA'', source_chain 1 ''urlC'']"
  using retained_feeds_in_selection_order
    [of "[\<lparr>name = ''cam1'', url = ''urlA''\<rparr>, \<lparr>name = ''cam2'', url = ''urlB''\<rparr>,
          \<lparr>name = ''cam3'', url = ''urlC''\<rparr>]" "[''cam1'', ''cam3'', ''cam9'']"]
  by (simp add: feed_map_def)

text \<open>
  Claim C3 (layout and order of concatenation). When the filtered selection \<open>urls\<close> is not
  empty, the result is the source chains joined by blanks, then the compositor with the
  encode chain, then the transport setting, in this order; the compositor lists, for each slot
  \<open>i\<close> below the number of urls, \<open>xpos = (i mod 3) * 640\<close> and
  \<open>ypos = (i div 3) * 360\<close>; and for slot 0 this is the text \<open>xpos=0\<close>, \<open>ypos=0\<close>
  that the code writes literally.
\<close>

theorem layout_and_concatenation_order:
  assumes "selected_urls (feed_map feeds) composite = Inr urls" and "urls \<noteq> []"
  shows "build_pipeline feeds composite webrtc =
           Inr (join '' '' (pipeline_parts urls) @ '' '' @ compositor (length urls) @ '' '' @
                webrtc_signaling webrtc) \<and>
         compositor (length urls) =
           ''compositor name=mix '' @
           concat (map (\<lambda>i. ''sink_'' @ str i @ ''::xpos='' @ str ((i mod 3) * 640) @
                            '' sink_'' @ str i @ ''::ypos='' @ str ((i div 3) * 360) @ '' '')
                     [0..<length urls]) @
           encode_chain \<and>
         ''sink_'' @ str 0 @ ''::xpos='' @ str ((0 mod 3) * 640) @
         '' sink_'' @ str 0 @ ''::ypos='' @ str ((0 div 3) * 360) @ '' '' =
           ''sink_0::xpos=0 sink_0::ypos=0 ''"
proof -
  from assms have "build_pipeline feeds composite webrtc = Inr (assemble urls webrtc)"
    by (simp add: build_pipeline_def)
  moreover from assms(2) have "0 < length urls" by simp
  then have "compositor (length urls) =
      ''compositor name=mix '' @ concat (map sink_props [0..<length urls]) @ encode_chain"
    by (rule compositor_slots)
  moreover have "sink_props = (\<lambda>i. ''sink_'' @ str i @ ''::xpos='' @ str ((i mod 3) * 640) @
                            '' sink_'' @ str i @ ''::ypos='' @ str ((i div 3) * 360) @ '' '')"
    by (rule ext) (simp add: sink_props_def)
  ultimately show ?thesis
    by (simp add: assemble_def str_0)
qed

text \<open>The full string for the scenario of the specification, with the default STUN server.\<close>

theorem layout_and_concatenation_order_witness:
  "build_pipeline
     [\<lparr>name = ''cam1'', url = ''urlA''\<rparr>, \<lparr>name = ''cam2'', url = ''urlB''\<rparr>,
      \<lparr>name = ''cam3'', url = ''urlC''\<rparr>]
     [JString ''cam1'', JString ''cam3'', JString ''cam9''] Map.empty =
   Inr (''rtspsrc location=urlA latency=100 ! rtph264depay ! h264parse ! avdec_h264 ! videoconvert ! videoscale ! video/x-raw,width=640,height=360 ! queue name=q0'' @
        '' rtspsrc location=urlC latency=100 ! rtph264depay ! h264parse ! avdec_h264 ! videoconvert ! videoscale ! video/x-raw,width=640,height=360 ! queue name=q1'' @
        '' compositor name=mix sink_0::xpos=0 sink_0::ypos=0 sink_1::xpos=640 sink_1::ypos=0 '' @
        encode_chain @ '' sendrecv.stun-server=stun:stun.l.google.com:19302'')"
proof -
  have urls: "selected_urls
      (feed_map [\<lparr>name = ''cam1'', url = ''urlA''\<rparr>, \<lparr>name = ''cam2'', url = ''urlB''\<rparr>,
                 \<lparr>name = ''cam3'', url = ''urlC''\<rparr>])
      [JString ''cam1'', JString ''cam3'', JString ''cam9''] = Inr [''urlA'', ''urlC'']"
    by (simp add: feed_map_def)
  have ne: "[''urlA'', ''urlC''] \<noteq> []" by simp
  show ?thesis
    using layout_and_concatenation_order [OF urls ne, of Map.empty]
    by (simp add: pipeline_parts_def source_chain_def webrtc_signaling_def str_eval)
qed

text \<open>
  Claim C4 (no valid feeds). When the selection is empty or holds only names that are not in
  the catalog, \<^verbatim>\<open>build_pipeline\<close> raises the \<^verbatim>\<open>ValueError\<close> "No valid feeds
  selected for composite.", and \<^verbatim>\<open>start_gst\<close> returns \<^verbatim>\<open>False\<close> having only
  logged the failure: \<^verbatim>\<open>GST_PROCESS\<close> is unchanged and \<^verbatim>\<open>Popen\<close> has not been
  called.
\<close>

theorem no_valid_feeds_no_spawn:
  assumes "\<forall>n\<in>set sel. n \<notin> name ` set feeds"
  shows "build_pipeline feeds (map JString sel) webrtc = Inl no_valid_feeds \<and>
         start_gst s feeds (map JString sel) webrtc popen =
           (False,
            logging [ERROR (''Failed to build pipeline: '' @ message no_valid_feeds),
                     DEBUG_traceback] s) \<and>
         GST_PROCESS (snd (start_gst s feeds (map JString sel) webrtc popen)) = GST_PROCESS s \<and>
         spawned (snd (start_gst s feeds (map JString sel) webrtc popen)) = spawned s \<and>
         released (snd (start_gst s feeds (map JString sel) webrtc popen)) = released s \<and>
         running (snd (start_gst s feeds (map JString sel) webrtc popen)) = running s"
  using build_pipeline_unknown [OF assms, of webrtc]
  by (simp add: start_gst_def running_def)

text \<open>The empty selection and a selection of one unknown name.\<close>

theorem no_valid_feeds_no_spawn_witness:
  "build_pipeline [\<lparr>name = ''cam1'', url = ''urlA''\<rparr>] (map JString []) Map.empty =
     Inl (ValueError ''No valid feeds selected for composite.'') \<and>
   build_pipeline [\<lparr>name = ''cam1'', url = ''urlA''\<rparr>] (map JString [''cam9'']) Map.empty =
     Inl (ValueError ''No valid feeds selected for composite.'') \<and>
   fst (start_gst initial [\<lparr>name = ''cam1'', url = ''urlA''\<rparr>] (map JString [''cam9''])
          Map.empty Popen_returns) = False \<and>
   spawned (snd (start_gst initial [\<lparr>name = ''cam1'', url = ''urlA''\<rparr>] (map JString [''cam9''])
          Map.empty Popen_returns)) = [] \<and>
   GST_PROCESS (snd (start_gst initial [\<lparr>name = ''cam1'', url = ''urlA''\<rparr>]
          (map JString [''cam9'']) Map.empty Popen_returns)) = None"
proof -
  have h0: "\<forall>n\<in>set []. n \<notin> name ` set [\<lparr>name = ''cam1'', url = ''urlA''\<rparr>]" by simp
  have h1: "\<forall>n\<in>set [''cam9'']. n \<notin> name ` set [\<lparr>name = ''cam1'', url = ''urlA''\<rparr>]" by simp
  show ?thesis
    using no_valid_feeds_no_spawn [OF h0, of Map.empty initial Popen_returns]
      no_valid_feeds_no_spawn [OF h1, of Map.empty initial Popen_returns]
    by (simp add: no_valid_feeds_def initial_def)
qed

text \<open>
  Claim C5 (start while running). When \<^verbatim>\<open>GST_PROCESS\<close> holds a handle,
  \<^verbatim>\<open>/start\<close> answers 400 "already running or error", and the handle, the list of spawned
  workers, the list of released handles and the running workers are the same after the call
  as before: the worker is neither stopped nor replaced.
\<close>

theorem start_while_running_keeps_worker:
  assumes "GST_PROCESS s = Some h"
  shows "fst (start s cfg popen) =
           \<lparr>status_code = 400, body = [(''status'', JString ''already running or error'')]\<rparr> \<and>
         fst (start_gst s (cfg_feeds cfg) (cfg_composite cfg) (cfg_webrtc cfg) popen) = False \<and>
         GST_PROCESS (snd (start s cfg popen)) = Some h \<and>
         spawned (snd (start s cfg popen)) = spawned s \<and>
         released (snd (start s cfg popen)) = released s \<and>
         running (snd (start s cfg popen)) = running s"
  using assms
  by (simp add: start_def start_gst_def Let_def running_def split: sum.splits)

theorem start_while_running_keeps_worker_witness:
  "GST_PROCESS (snd (start_gst initial [\<lparr>name = ''cam1'', url = ''urlA''\<rparr>] [JString ''cam1''] Map.empty Popen_returns)) = Some 0 \<and>
   fst (start (snd (start_gst initial [\<lparr>name = ''cam1'', url = ''urlA''\<rparr>] [JString ''cam1''] Map.empty Popen_returns))
     \<lparr>cfg_feeds = [\<lparr>name = ''cam1'', url = ''urlA''\<rparr>], cfg_composite = [JString ''cam1''], cfg_webrtc = Map.empty\<rparr> Popen_returns) =
     \<lparr>status_code = 400, body = [(''status'', JString ''already running or error'')]\<rparr> \<and>
   GST_PROCESS (snd (start (snd (start_gst initial [\<lparr>name = ''cam1'', url = ''urlA''\<rparr>] [JString ''cam1''] Map.empty Popen_returns))
     \<lparr>cfg_feeds = [\<lparr>name = ''cam1'', url = ''urlA''\<rparr>], cfg_composite = [JString ''cam1''], cfg_webrtc = Map.empty\<rparr> Popen_returns)) = Some 0 \<and>
   spawned (snd (start (snd (start_gst initial [\<lparr>name = ''cam1'', url = ''urlA''\<rparr>] [JString ''cam1''] Map.empty Popen_returns))
     \<lparr>cfg_feeds = [\<lparr>name = ''cam1'', url = ''urlA''\<rparr>], cfg_composite = [JString ''cam1''], cfg_webrtc = Map.empty\<rparr> Popen_returns)) = [assemble [''urlA''] Map.empty]"
proof -
  have h: "GST_PROCESS (snd (start_gst initial [\<lparr>name = ''cam1'', url = ''urlA''\<rparr>] [JString ''cam1''] Map.empty Popen_returns)) = Some 0"
    by (simp add: running_example)
  show ?thesis
    using start_while_running_keeps_worker [OF h] h by (simp add: running_example)
qed

text \<open>
  Claim C6 (stop always clears the handle). When \<^verbatim>\<open>GST_PROCESS\<close> holds a handle,
  \<^verbatim>\<open>stop_gst\<close> returns \<^verbatim>\<open>True\<close>, \<^verbatim>\<open>GST_PROCESS\<close> is \<^verbatim>\<open>None\<close>
  afterwards and \<^verbatim>\<open>/stop\<close> answers 200 "stopped", for every outcome of
  \<^verbatim>\<open>terminate\<close> and \<^verbatim>\<open>wait\<close>: also when \<^verbatim>\<open>wait(timeout=5)\<close> raises
  \<^verbatim>\<open>TimeoutExpired\<close>. The exception is caught: it leaves a log record (written
  with \<^verbatim>\<open>logging.error\<close>) and a traceback, and changes neither the result nor the
  response.
\<close>

theorem stop_always_clears_handle:
  assumes "GST_PROCESS s = Some h"
  shows "fst (stop_gst s outcome) = True \<and>
         GST_PROCESS (snd (stop_gst s outcome)) = None \<and>
         fst (stop s outcome) = \<lparr>status_code = 200, body = [(''status'', JString ''stopped'')]\<rparr> \<and>
         GST_PROCESS (snd (stop s outcome)) = None \<and>
         released (snd (stop s outcome)) = h # released s \<and>
         log (snd (stop_gst s (TimeoutExpired e))) =
           log s @ [ERROR (''Error stopping GStreamer process: '' @ e), DEBUG_traceback]"
  using assms by (simp add: stop_def stop_gst_def logging_def)

theorem stop_always_clears_handle_witness:
  "GST_PROCESS (snd (start_gst initial [\<lparr>name = ''cam1'', url = ''urlA''\<rparr>] [JString ''cam1''] Map.empty Popen_returns)) = Some 0 \<and>
   fst (stop_gst (snd (start_gst initial [\<lparr>name = ''cam1'', url = ''urlA''\<rparr>] [JString ''cam1''] Map.empty Popen_returns))
     (TimeoutExpired ''timed out after 5 seconds'')) = True \<and>
   GST_PROCESS (snd (stop_gst (snd (start_gst initial [\<lparr>name = ''cam1'', url = ''urlA''\<rparr>] [JString ''cam1''] Map.empty Popen_returns))
     (TimeoutExpired ''timed out after 5 seconds''))) = None \<and>
   fst (stop (snd (start_gst initial [\<lparr>name = ''cam1'', url = ''urlA''\<rparr>] [JString ''cam1''] Map.empty Popen_returns))
     (TimeoutExpired ''timed out after 5 seconds'')) =
     \<lparr>status_code = 200, body = [(''status'', JString ''stopped'')]\<rparr>"
proof -
  have h: "GST_PROCESS (snd (start_gst initial [\<lparr>name = ''cam1'', url = ''urlA''\<rparr>] [JString ''cam1''] Map.empty Popen_returns)) = Some 0"
    by (simp add: running_example)
  show ?thesis
    using stop_always_clears_handle [OF h] h by simp
qed

text \<open>
  Claim C7 (stop twice). From a state in which \<^verbatim>\<open>GST_PROCESS\<close> holds a handle, two
  \<^verbatim>\<open>/stop\<close> requests in a row answer 200 "stopped" and then 400 "not running", and
  \<^verbatim>\<open>GST_PROCESS\<close> is \<^verbatim>\<open>None\<close> after each of them, whatever the environment
  answers. Both calls return a response: every exception of \<^verbatim>\<open>terminate\<close> and
  \<^verbatim>\<open>wait\<close> is caught inside \<^verbatim>\<open>stop_gst\<close>.
\<close>

theorem stop_twice:
  assumes "GST_PROCESS s = Some h"
  shows "fst (stop s o1) = \<lparr>status_code = 200, body = [(''status'', JString ''stopped'')]\<rparr> \<and>
         GST_PROCESS (snd (stop s o1)) = None \<and>
         fst (stop (snd (stop s o1)) o2) =
           \<lparr>status_code = 400, body = [(''status'', JString ''not running'')]\<rparr> \<and>
         GST_PROCESS (snd (stop (snd (stop s o1)) o2)) = None"
  using assms by (simp add: stop_def stop_gst_def)

theorem stop_twice_witness:
  "GST_PROCESS (snd (start_gst initial [\<lparr>name = ''cam1'', url = ''urlA''\<rparr>] [JString ''cam1''] Map.empty Popen_returns)) = Some 0 \<and>
   fst (stop (snd (start_gst initial [\<lparr>name = ''cam1'', url = ''urlA''\<rparr>] [JString ''cam1''] Map.empty Popen_returns)) (TimeoutExpired ''timed out after 5 seconds'')) =
     \<lparr>status_code = 200, body = [(''status'', JString ''stopped'')]\<rparr> \<and>
   GST_PROCESS (snd (stop (snd (start_gst initial [\<lparr>name = ''cam1'', url = ''urlA''\<rparr>] [JString ''cam1''] Map.empty Popen_returns)) (TimeoutExpired ''timed out after 5 seconds''))) = None \<and>
   fst (stop (snd (stop (snd (start_gst initial [\<lparr>name = ''cam1'', url = ''urlA''\<rparr>] [JString ''cam1''] Map.empty Popen_returns)) (TimeoutExpired ''timed out after 5 seconds''))) Exited) =
     \<lparr>status_code = 400, body = [(''status'', JString ''not running'')]\<rparr> \<and>
   GST_PROCESS (snd (stop (snd (stop (snd (start_gst initial [\<lparr>name = ''cam1'', url = ''urlA''\<rparr>] [JString ''cam1''] Map.empty Popen_returns)) (TimeoutExpired ''timed out after 5 seconds''))) Exited)) = None"
proof -
  have h: "GST_PROCESS (snd (start_gst initial [\<lparr>name = ''cam1'', url = ''urlA''\<rparr>] [JString ''cam1''] Map.empty Popen_returns)) = Some 0"
    by (simp add: running_example)
  show ?thesis
    using stop_twice [OF h] h by simp
qed



text \<open>
  Claim C9 (update with unknown names only), as the code has it. An update whose composite is
  a non-empty list of names none of which is in the catalog is answered with 500 "failed to
  update": \<^verbatim>\<open>build_pipeline\<close> raises the \<^verbatim>\<open>ValueError\<close> for no valid feeds,
  \<^verbatim>\<open>start_gst\<close> turns every failure into \<^verbatim>\<open>False\<close>, and \<^verbatim>\<open>update\<close>
  answers 500 for \<^verbatim>\<open>False\<close>. The worker that was running has been stopped and
  nothing has been spawned.
\<close>

theorem update_unknown_names_is_500:
  assumes "sel \<noteq> []" and "\<forall>n\<in>set sel. n \<notin> name ` set (cfg_feeds cfg)"
    and "data ''composite'' = Some (JArray (map JString sel))"
  shows "build_pipeline (cfg_feeds cfg) (map JString sel) (cfg_webrtc cfg) = Inl no_valid_feeds \<and>
         fst (update s data cfg outcome popen) =
           \<lparr>status_code = 500, body = [(''status'', JString ''failed to update'')]\<rparr> \<and>
         GST_PROCESS (snd (update s data cfg outcome popen)) = None \<and>
         spawned (snd (update s data cfg outcome popen)) = spawned s"
  using build_pipeline_unknown [OF assms(2), of "cfg_webrtc cfg"] assms(1,3)
  by (simp add: update_def start_gst_def stop_gst_def split: option.splits)

theorem update_unknown_names_is_500_witness:
  "fst (update initial [''composite'' \<mapsto> JArray (map JString [''cam9''])]
     \<lparr>cfg_feeds = [\<lparr>name = ''cam1'', url = ''urlA''\<rparr>], cfg_composite = [JString ''cam1''],
      cfg_webrtc = Map.empty\<rparr> Exited Popen_returns) =
   \<lparr>status_code = 500, body = [(''status'', JString ''failed to update'')]\<rparr>"
proof -
  have ne: "[''cam9''] \<noteq> []" by simp
  have unknown: "\<forall>n\<in>set [''cam9''].
      n \<notin> name ` set (cfg_feeds
        \<lparr>cfg_feeds = [\<lparr>name = ''cam1'', url = ''urlA''\<rparr>], cfg_composite = [JString ''cam1''],
         cfg_webrtc = Map.empty\<rparr>)"
    by simp
  have field: "[''composite'' \<mapsto> JArray (map JString [''cam9''])] ''composite'' =
      Some (JArray (map JString [''cam9'']))"
    by simp
  show ?thesis
    using update_unknown_names_is_500
      [where data = "[''composite'' \<mapsto> JArray (map JString [''cam9''])]", OF ne unknown field]
    by simp
qed

text \<open>
  Claim C9 as it is worded asks for a status in the 4xx range. The request
  \<open>{"composite": ["cam9"]}\<close> on the catalog \<open>cam1\<close> is answered with 500, which is
  not in that range.
\<close>

theorem update_unknown_names_not_4xx:
  "build_pipeline [\<lparr>name = ''cam1'', url = ''urlA''\<rparr>] [JString ''cam9''] Map.empty =
     Inl (ValueError ''No valid feeds selected for composite.'') \<and>
   status_code (fst (update initial [''composite'' \<mapsto> JArray [JString ''cam9'']]
     \<lparr>cfg_feeds = [\<lparr>name = ''cam1'', url = ''urlA''\<rparr>], cfg_composite = [JString ''cam1''], cfg_webrtc = Map.empty\<rparr> Exited Popen_returns)) = 500 \<and>
   \<not> is_4xx (status_code (fst (update initial [''composite'' \<mapsto> JArray [JString ''cam9'']]
     \<lparr>cfg_feeds = [\<lparr>name = ''cam1'', url = ''urlA''\<rparr>], cfg_composite = [JString ''cam1''], cfg_webrtc = Map.empty\<rparr> Exited Popen_returns)))"
  by (simp add: is_4xx_def update_def start_gst_def stop_gst_def build_pipeline_def
        feed_map_def initial_def logging_def no_valid_feeds_def)

text \<open>
  Claim C10 (duplicates are kept). Let \<open>c\<close> be a catalog name with url \<open>u\<close>. The positions
  of \<open>c\<close> in the filtered selection are as many as the occurrences of \<open>c\<close> in the
  selection, pairwise different and increasing, and the url at each of them is \<open>u\<close>. When
  \<open>c\<close> occurs at all, the built string is, written out: for every position \<open>i\<close> of the
  filtered selection the decode chain of the url at \<open>i\<close> ending in the queue \<open>q\<close>\<open>i\<close>,
  then the compositor with the sink \<open>i\<close> of every position, then the encode chain and the
  transport setting. So each of the positions of \<open>c\<close> has its own chain for \<open>u\<close> and
  its own sink in the string. Chains of \<open>u\<close> with different indices are different texts,
  and so are sinks with different indices. Nothing is deduplicated.
\<close>

theorem duplicates_keep_their_own_slots:
  assumes "feed_map feeds c = Some u"
  shows "let names = filter (\<lambda>n. n \<in> name ` set feeds) sel;
             urls = map (\<lambda>n. the (feed_map feeds n)) names;
             slots = filter (\<lambda>i. names ! i = c) [0..<length names]
         in length slots = count_list sel c \<and> distinct slots \<and> sorted slots \<and>
            (\<forall>i\<in>set slots. i < length urls \<and> urls ! i = u) \<and>
            (c \<in> set sel \<longrightarrow>
               build_pipeline feeds (map JString sel) webrtc =
                 Inr (concat (map (\<lambda>i. ''rtspsrc location='' @ urls ! i @
                        '' latency=100 ! rtph264depay ! h264parse ! avdec_h264 ! videoconvert ! videoscale ! video/x-raw,width=640,height=360 ! queue name=q''
                        @ str i @ '' '') [0..<length urls]) @
                      ''compositor name=mix '' @
                      concat (map (\<lambda>i. ''sink_'' @ str i @ ''::xpos='' @ str ((i mod 3) * 640) @
                                       '' sink_'' @ str i @ ''::ypos='' @ str ((i div 3) * 360) @ '' '')
                                [0..<length urls]) @
                      encode_chain @ '' '' @ webrtc_signaling webrtc)) \<and>
            (\<forall>i j. (''rtspsrc location='' @ u @
                      '' latency=100 ! rtph264depay ! h264parse ! avdec_h264 ! videoconvert ! videoscale ! video/x-raw,width=640,height=360 ! queue name=q''
                      @ str i @ '' '' =
                    ''rtspsrc location='' @ u @
                      '' latency=100 ! rtph264depay ! h264parse ! avdec_h264 ! videoconvert ! videoscale ! video/x-raw,width=640,height=360 ! queue name=q''
                      @ str j @ '' '' \<longrightarrow> i = j) \<and>
                   (''sink_'' @ str i @ ''::xpos='' @ str ((i mod 3) * 640) @
                      '' sink_'' @ str i @ ''::ypos='' @ str ((i div 3) * 360) @ '' '' =
                    ''sink_'' @ str j @ ''::xpos='' @ str ((j mod 3) * 640) @
                      '' sink_'' @ str j @ ''::ypos='' @ str ((j div 3) * 360) @ '' '' \<longrightarrow> i = j))"
proof -
  define names where "names = filter (\<lambda>n. n \<in> name ` set feeds) sel"
  define urls where "urls = map (\<lambda>n. the (feed_map feeds n)) names"
  define slots where "slots = filter (\<lambda>i. names ! i = c) [0..<length names]"
  from assms have c_in: "c \<in> name ` set feeds"
    using dom_feed_map [of feeds] by auto
  have sel: "selected_urls (feed_map feeds) (map JString sel) = Inr urls"
    by (simp add: urls_def names_def selected_urls_names map_filter_dom dom_feed_map)
  have "length slots = length (filter (\<lambda>n. n = c) names)"
    unfolding slots_def by (rule length_filter_upt_nth)
  also have "filter (\<lambda>n. n = c) names = filter (\<lambda>n. n = c) sel"
    unfolding names_def using c_in by (auto intro: filter_cong)
  finally have len: "length slots = count_list sel c"
    by (simp add: count_list_filter)
  have dist: "distinct slots" and sorted: "sorted slots"
    by (simp_all add: slots_def sorted_filter [of id, simplified])
  have at: "\<forall>i\<in>set slots. i < length urls \<and> urls ! i = u"
    using assms by (simp add: slots_def urls_def)
  have build: "c \<in> set sel \<longrightarrow>
      build_pipeline feeds (map JString sel) webrtc =
        Inr (concat (map (\<lambda>i. ''rtspsrc location='' @ urls ! i @
               '' latency=100 ! rtph264depay ! h264parse ! avdec_h264 ! videoconvert ! videoscale ! video/x-raw,width=640,height=360 ! queue name=q''
               @ str i @ '' '') [0..<length urls]) @
             ''compositor name=mix '' @
             concat (map (\<lambda>i. ''sink_'' @ str i @ ''::xpos='' @ str ((i mod 3) * 640) @
                              '' sink_'' @ str i @ ''::ypos='' @ str ((i div 3) * 360) @ '' '')
                       [0..<length urls]) @
             encode_chain @ '' '' @ webrtc_signaling webrtc)"
  proof
    assume "c \<in> set sel"
    with c_in have "c \<in> set names" by (simp add: names_def)
    then have ne: "urls \<noteq> []" by (auto simp: urls_def)
    with sel have "build_pipeline feeds (map JString sel) webrtc = Inr (assemble urls webrtc)"
      by (simp add: build_pipeline_def)
    then show "build_pipeline feeds (map JString sel) webrtc =
        Inr (concat (map (\<lambda>i. ''rtspsrc location='' @ urls ! i @
               '' latency=100 ! rtph264depay ! h264parse ! avdec_h264 ! videoconvert ! videoscale ! video/x-raw,width=640,height=360 ! queue name=q''
               @ str i @ '' '') [0..<length urls]) @
             ''compositor name=mix '' @
             concat (map (\<lambda>i. ''sink_'' @ str i @ ''::xpos='' @ str ((i mod 3) * 640) @
                              '' sink_'' @ str i @ ''::ypos='' @ str ((i div 3) * 360) @ '' '')
                       [0..<length urls]) @
             encode_chain @ '' '' @ webrtc_signaling webrtc)"
      by (simp only: assemble_text [OF ne])
  qed
  have inj: "\<forall>i j.
      (''rtspsrc location='' @ u @
         '' latency=100 ! rtph264depay ! h264parse ! avdec_h264 ! videoconvert ! videoscale ! video/x-raw,width=640,height=360 ! queue name=q''
         @ str i @ '' '' =
       ''rtspsrc location='' @ u @
         '' latency=100 ! rtph264depay ! h264parse ! avdec_h264 ! videoconvert ! videoscale ! video/x-raw,width=640,height=360 ! queue name=q''
         @ str j @ '' '' \<longrightarrow> i = j) \<and>
      (''sink_'' @ str i @ ''::xpos='' @ str ((i mod 3) * 640) @
         '' sink_'' @ str i @ ''::ypos='' @ str ((i div 3) * 360) @ '' '' =
       ''sink_'' @ str j @ ''::xpos='' @ str ((j mod 3) * 640) @
         '' sink_'' @ str j @ ''::ypos='' @ str ((j div 3) * 360) @ '' '' \<longrightarrow> i = j)"
  proof (intro allI conjI impI)
    fix i j
    assume "''rtspsrc location='' @ u @
         '' latency=100 ! rtph264depay ! h264parse ! avdec_h264 ! videoconvert ! videoscale ! video/x-raw,width=640,height=360 ! queue name=q''
         @ str i @ '' '' =
       ''rtspsrc location='' @ u @
         '' latency=100 ! rtph264depay ! h264parse ! avdec_h264 ! videoconvert ! videoscale ! video/x-raw,width=640,height=360 ! queue name=q''
         @ str j @ '' ''"
    then have "str i = str j" by simp
    then show "i = j" by (rule str_inj)
  next
    fix i j
    assume "''sink_'' @ str i @ ''::xpos='' @ str ((i mod 3) * 640) @
         '' sink_'' @ str i @ ''::ypos='' @ str ((i div 3) * 360) @ '' '' =
       ''sink_'' @ str j @ ''::xpos='' @ str ((j mod 3) * 640) @
         '' sink_'' @ str j @ ''::ypos='' @ str ((j div 3) * 360) @ '' ''"
    then have "str i @ CHR '':'' # ('':xpos='' @ str ((i mod 3) * 640) @
         '' sink_'' @ str i @ ''::ypos='' @ str ((i div 3) * 360) @ '' '') =
       str j @ CHR '':'' # ('':xpos='' @ str ((j mod 3) * 640) @
         '' sink_'' @ str j @ ''::ypos='' @ str ((j div 3) * 360) @ '' '')"
      by simp
    then show "i = j" by (rule str_colon_inj)
  qed
  from len dist sorted at build inj show ?thesis
    unfolding Let_def names_def [symmetric] urls_def [symmetric] slots_def [symmetric]
    by blast
qed

text \<open>
  \<open>cam1\<close> selected twice, around \<open>cam2\<close>: the string has the chain of \<open>urlA\<close> as
  \<open>q0\<close> and again as \<open>q2\<close>, and the sinks 0, 1 and 2.
\<close>

theorem duplicates_keep_their_own_slots_witness:
  "build_pipeline [\<lparr>name = ''cam1'', url = ''urlA''\<rparr>, \<lparr>name = ''cam2'', url = ''urlB''\<rparr>]
     (map JString [''cam1'', ''cam2'', ''cam1'']) Map.empty =
   Inr (''rtspsrc location=urlA latency=100 ! rtph264depay ! h264parse ! avdec_h264 ! videoconvert ! videoscale ! video/x-raw,width=640,height=360 ! queue name=q0 '' @
        ''rtspsrc location=urlB latency=100 ! rtph264depay ! h264parse ! avdec_h264 ! videoconvert ! videoscale ! video/x-raw,width=640,height=360 ! queue name=q1 '' @
        ''rtspsrc location=urlA latency=100 ! rtph264depay ! h264parse ! avdec_h264 ! videoconvert ! videoscale ! video/x-raw,width=640,height=360 ! queue name=q2 '' @
        ''compositor name=mix sink_0::xpos=0 sink_0::ypos=0 sink_1::xpos=640 sink_1::ypos=0 sink_2::xpos=1280 sink_2::ypos=0 '' @
        encode_chain @ '' sendrecv.stun-server=stun:stun.l.google.com:19302'') \<and>
   count_list [''cam1'', ''cam2'', ''cam1''] ''cam1'' = 2 \<and>
   filter (\<lambda>i. [''cam1'', ''cam2'', ''cam1''] ! i = ''cam1'') [0..<3] = [0, 2]"
proof -
  have c: "feed_map [\<lparr>name = ''cam1'', url = ''urlA''\<rparr>, \<lparr>name = ''cam2'', url = ''urlB''\<rparr>]
             ''cam1'' = Some ''urlA''"
    by (simp add: feed_map_def)
  have three: "[0..<3] = [0, 1, 2]" by (simp add: upt_conv_Cons)
  have "let names = filter (\<lambda>n. n \<in> name ` set [\<lparr>name = ''cam1'', url = ''urlA''\<rparr>, \<lparr>name = ''cam2'', url = ''urlB''\<rparr>]) [''cam1'', ''cam2'', ''cam1''];
            urls = map (\<lambda>n. the (feed_map [\<lparr>name = ''cam1'', url = ''urlA''\<rparr>, \<lparr>name = ''cam2'', url = ''urlB''\<rparr>] n)) names
        in ''cam1'' \<in> set [''cam1'', ''cam2'', ''cam1''] \<longrightarrow>
           build_pipeline [\<lparr>name = ''cam1'', url = ''urlA''\<rparr>, \<lparr>name = ''cam2'', url = ''urlB''\<rparr>]
             (map JString [''cam1'', ''cam2'', ''cam1'']) Map.empty =
           Inr (concat (map (\<lambda>i. ''rtspsrc location='' @ urls ! i @
                        '' latency=100 ! rtph264depay ! h264parse ! avdec_h264 ! videoconvert ! videoscale ! video/x-raw,width=640,height=360 ! queue name=q''
                        @ str i @ '' '') [0..<length urls]) @
                      ''compositor name=mix '' @
                      concat (map (\<lambda>i. ''sink_'' @ str i @ ''::xpos='' @ str ((i mod 3) * 640) @
                                       '' sink_'' @ str i @ ''::ypos='' @ str ((i div 3) * 360) @ '' '')
                                [0..<length urls]) @
                      encode_chain @ '' '' @ webrtc_signaling Map.empty)"
    using duplicates_keep_their_own_slots [OF c, of "[''cam1'', ''cam2'', ''cam1'']" Map.empty]
    unfolding Let_def by blast
  then show ?thesis
    by (simp add: Let_def feed_map_def three webrtc_signaling_def str_eval
          numeral_2_eq_2 [symmetric])
qed

end
